theory Spec2Isabelle
  imports Complex_Main "HOL-Library.Word" "HOL-Library.AList"
begin

unbundle bit_operations_syntax

section \<open>Bytes, clock readings, errors\<close>

text \<open>
  The package \<^verbatim>\<open>mstore\<close> (file \<^verbatim>\<open>src/mstore_gc.go\<close>) wraps a badger database behind
  two package-level variables, \<^verbatim>\<open>db *badger.DB\<close> and \<^verbatim>\<open>isOpen bool\<close>.  A Go \<^verbatim>\<open>[]byte\<close> is
  a list of 8-bit words, a Go \<^verbatim>\<open>string\<close> a HOL string.  The wall clock that badger reads
  (\<^verbatim>\<open>time.Now()\<close>) is an explicit argument \<open>now\<close> of every operation that depends on it.
\<close>

type_synonym byte = "8 word"
type_synonym bytes = "byte list"
type_synonym time = int
type_synonym duration = int

text \<open>
  Failures of the wrapped engine.  \<open>ErrNoRewrite\<close> and \<open>ErrRejected\<close> are what badger's
  \<^verbatim>\<open>RunValueLogGC\<close> returns when it rewrote nothing; \<open>ErrEngine\<close> stands for any other
  failure (validation of a key, a full transaction, disk errors, ...).
\<close>

datatype engine_error =
    ErrKeyNotFound
  | ErrDBClosed
  | ErrNoRewrite
  | ErrRejected
  | ErrEngine string

text \<open>
  The errors of \<^verbatim>\<open>mstore\<close> itself are built with \<^verbatim>\<open>errors.New\<close>; each constructor stands for
  one message of the source:
  \<^item> \<open>NotOpenError\<close>: "the storage is not open";
  \<^item> \<open>AlreadyOpenError\<close>: "cannot renitialize db while it is still open";
  \<^item> \<open>EmptyInputError\<close>: "data for key is empty";
  \<^item> \<open>InvalidKeyError\<close>: "invalid key";
  \<^item> \<open>NotFoundError\<close>: "key not found";
  \<^item> \<open>DuplicateKeyError\<close>: "the entity already exists";
  \<^item> \<open>EngineError e\<close>: an error of the engine handed on unchanged;
  \<^item> \<open>NilDereference\<close>: not a returned error but the run-time panic of a method call
    through the nil pointer \<^verbatim>\<open>db\<close>.
\<close>

datatype error =
    NotOpenError
  | AlreadyOpenError
  | EmptyInputError
  | InvalidKeyError
  | NotFoundError
  | DuplicateKeyError
  | EngineError engine_error
  | NilDereference

section \<open>The digest behind \<^verbatim>\<open>GenPK\<close>\<close>

text \<open>
  Modelled from the spec: \<^verbatim>\<open>crypto/md5\<close> is Go's standard library and not part of the
  repository's sources.  The spec asks for a deterministic 128-bit digest of the payload;
  \<^verbatim>\<open>GenPK\<close> names MD5, so the digest is written out after RFC 1321: the message is padded
  with \<open>0x80\<close>, zeros and its bit length (64 bits, little endian) to a multiple of 64 bytes,
  and every 64-byte block is mixed into four 32-bit words by 64 steps.
\<close>

definition le_bytes :: "nat \<Rightarrow> 'a::len word \<Rightarrow> bytes" where
  "le_bytes n w = map (\<lambda>i. ucast (drop_bit (8 * i) w)) [0..<n]"

definition le_word :: "bytes \<Rightarrow> 32 word" where
  "le_word bs = foldr (\<lambda>b w. ucast b + push_bit 8 w) bs 0"

definition md5_s :: "nat list" where
  "md5_s =
    [7, 12, 17, 22, 7, 12, 17, 22, 7, 12, 17, 22, 7, 12, 17, 22,
     5, 9, 14, 20, 5, 9, 14, 20, 5, 9, 14, 20, 5, 9, 14, 20,
     4, 11, 16, 23, 4, 11, 16, 23, 4, 11, 16, 23, 4, 11, 16, 23,
     6, 10, 15, 21, 6, 10, 15, 21, 6, 10, 15, 21, 6, 10, 15, 21]"

definition md5_K :: "32 word list" where
  "md5_K =
    [0xd76aa478, 0xe8c7b756, 0x242070db, 0xc1bdceee,
     0xf57c0faf, 0x4787c62a, 0xa8304613, 0xfd469501,
     0x698098d8, 0x8b44f7af, 0xffff5bb1, 0x895cd7be,
     0x6b901122, 0xfd987193, 0xa679438e, 0x49b40821,
     0xf61e2562, 0xc040b340, 0x265e5a51, 0xe9b6c7aa,
     0xd62f105d, 0x02441453, 0xd8a1e681, 0xe7d3fbc8,
     0x21e1cde6, 0xc33707d6, 0xf4d50d87, 0x455a14ed,
     0xa9e3e905, 0xfcefa3f8, 0x676f02d9, 0x8d2a4c8a,
     0xfffa3942, 0x8771f681, 0x6d9d6122, 0xfde5380c,
     0xa4beea44, 0x4bdecfa9, 0xf6bb4b60, 0xbebfbc70,
     0x289b7ec6, 0xeaa127fa, 0xd4ef3085, 0x04881d05,
     0xd9d4d039, 0xe6db99e5, 0x1fa27cf8, 0xc4ac5665,
     0xf4292244, 0x432aff97, 0xab9423a7, 0xfc93a039,
     0x655b59c3, 0x8f0ccc92, 0xffeff47d, 0x85845dd1,
     0x6fa87e4f, 0xfe2ce6e0, 0xa3014314, 0x4e0811a1,
     0xf7537e82, 0xbd3af235, 0x2ad7d2bb, 0xeb86d391]"

type_synonym md5_state = "32 word \<times> 32 word \<times> 32 word \<times> 32 word"

definition md5_init :: md5_state where
  "md5_init = (0x67452301, 0xefcdab89, 0x98badcfe, 0x10325476)"

fun md5_step :: "32 word list \<Rightarrow> md5_state \<Rightarrow> nat \<Rightarrow> md5_state" where
  "md5_step M (A, B, C, D) i =
     (let (F, g) =
        (if i < 16 then ((B AND C) OR (NOT B AND D), i)
         else if i < 32 then ((D AND B) OR (NOT D AND C), (5 * i + 1) mod 16)
         else if i < 48 then (B XOR C XOR D, (3 * i + 5) mod 16)
         else (C XOR (B OR NOT D), (7 * i) mod 16));
        F' = F + A + md5_K ! i + M ! g
      in (D, B + word_rotl (md5_s ! i) F', B, C))"

definition md5_block :: "md5_state \<Rightarrow> bytes \<Rightarrow> md5_state" where
  "md5_block st blk =
     (let M = map (\<lambda>j. le_word (take 4 (drop (4 * j) blk))) [0..<16];
          (a0, b0, c0, d0) = st;
          (A, B, C, D) = foldl (md5_step M) st [0..<64]
      in (a0 + A, b0 + B, c0 + C, d0 + D))"

definition md5_pad :: "bytes \<Rightarrow> bytes" where
  "md5_pad m =
     m @ [0x80] @ replicate ((64 - (length m + 9) mod 64) mod 64) 0
       @ le_bytes 8 (of_nat (8 * length m) :: 64 word)"

function blocks64 :: "bytes \<Rightarrow> bytes list" where
  "blocks64 bs = (if bs = [] then [] else take 64 bs # blocks64 (drop 64 bs))"
  by pat_completeness auto
termination
  by (relation "measure length") auto

definition md5_sum :: "bytes \<Rightarrow> bytes" where
  "md5_sum m =
     (let (a, b, c, d) = foldl md5_block md5_init (blocks64 (md5_pad m))
      in le_bytes 4 a @ le_bytes 4 b @ le_bytes 4 c @ le_bytes 4 d)"

section \<open>Base64, the text form of keys\<close>

text \<open>
  Modelled from the spec: \<^verbatim>\<open>encoding/base64\<close> is Go's standard library and not part of the
  repository's sources.  \<^verbatim>\<open>base64.StdEncoding.EncodeToString\<close> is the padded encoding of
  RFC 4648: three bytes give four characters of the 64-letter alphabet, a rest of one or
  two bytes gives two or three characters and \<open>=\<close> signs up to four.
\<close>

definition b64_alphabet :: string where
  "b64_alphabet = ''ABCDEFGHIJKLMNOPQRSTUVWXYZabcdefghijklmnopqrstuvwxyz0123456789+/''"

definition b64_char :: "nat \<Rightarrow> char" where
  "b64_char n = b64_alphabet ! n"

fun EncodeToString :: "bytes \<Rightarrow> string" where
  "EncodeToString [] = []"
| "EncodeToString [a] =
     [b64_char (unat a div 4), b64_char (unat a mod 4 * 16), CHR ''='', CHR ''='']"
| "EncodeToString [a, b] =
     [b64_char (unat a div 4), b64_char (unat a mod 4 * 16 + unat b div 16),
      b64_char (unat b mod 16 * 4), CHR ''='']"
| "EncodeToString (a # b # c # rest) =
     [b64_char (unat a div 4), b64_char (unat a mod 4 * 16 + unat b div 16),
      b64_char (unat b mod 16 * 4 + unat c div 64), b64_char (unat c mod 64)]
     @ EncodeToString rest"

section \<open>The wrapped engine\<close>

text \<open>
  Modelled from the spec: the engine (\<^verbatim>\<open>github.com/dgraph-io/badger/v3\<close>) is an external
  package and not part of the repository's sources.  The spec lists what the engine
  provides: open and close, transactions with get, set, delete, commit and discard,
  snapshot iteration, entry-level expiry, a reclaim-space primitive and a sync.  The model
  is a key-value table with one entry per key.  An entry past its expiry instant reads as
  absent although it still occupies the table.  When a write, a commit or a close of the
  engine fails is not determined by the sources, so the engine value carries its verdicts
  (\<open>write_fault\<close>, \<open>commit_fault\<close>, \<open>close_fault\<close>) and every theorem holds for all of them.
\<close>

record entry =
  payload :: bytes
  expires_at :: "time option"

record options =
  dir :: string
  sync_writes :: bool
  in_memory :: bool

record DB =
  opts :: options
  items :: "(bytes \<times> entry) list"
  closed :: bool
  write_fault :: "bytes \<Rightarrow> bytes \<Rightarrow> engine_error option"
  commit_fault :: "engine_error option"
  close_fault :: "engine_error option"

record Txn =
  txn_db :: DB
  txn_update :: bool
  pendingWrites :: "(bytes \<times> entry option) list"

definition DefaultOptions :: "string \<Rightarrow> options" where
  "DefaultOptions path = \<lparr>dir = path, sync_writes = False, in_memory = False\<rparr>"

definition WithSyncWrites :: "options \<Rightarrow> bool \<Rightarrow> options" where
  "WithSyncWrites os b = os\<lparr>sync_writes := b\<rparr>"

definition WithInMemory :: "options \<Rightarrow> bool \<Rightarrow> options" where
  "WithInMemory os b = os\<lparr>in_memory := b\<rparr>"

text \<open>
  \<^verbatim>\<open>badger.Open(opts)\<close>: \<open>found\<close> is what the engine finds for these options, a failure or
  the table stored at the path; a memory-only engine starts empty.
\<close>

definition badger_Open :: "options \<Rightarrow> engine_error + DB \<Rightarrow> engine_error + DB" where
  "badger_Open os found =
     (case found of
        Inl err \<Rightarrow> Inl err
      | Inr d \<Rightarrow>
          Inr (d\<lparr>opts := os, closed := False,
                 items := (if in_memory os then [] else items d)\<rparr>))"

definition IsClosed :: "DB \<Rightarrow> bool" where
  "IsClosed d = closed d"

definition db_Close :: "DB \<Rightarrow> engine_error option \<times> DB" where
  "db_Close d = (close_fault d, d\<lparr>closed := True\<rparr>)"

definition NewTransaction :: "DB \<Rightarrow> bool \<Rightarrow> Txn" where
  "NewTransaction d upd = \<lparr>txn_db = d, txn_update = upd, pendingWrites = []\<rparr>"

definition NewEntry :: "bytes \<Rightarrow> bytes \<Rightarrow> bytes \<times> entry" where
  "NewEntry k v = (k, \<lparr>payload = v, expires_at = None\<rparr>)"

definition WithTTL :: "bytes \<times> entry \<Rightarrow> time \<Rightarrow> duration \<Rightarrow> bytes \<times> entry" where
  "WithTTL ke now ttl = (fst ke, (snd ke)\<lparr>expires_at := Some (now + ttl)\<rparr>)"

definition expired :: "entry \<Rightarrow> time \<Rightarrow> bool" where
  "expired e now = (case expires_at e of None \<Rightarrow> False | Some t \<Rightarrow> t \<le> now)"

definition txn_Get :: "Txn \<Rightarrow> time \<Rightarrow> bytes \<Rightarrow> engine_error + entry" where
  "txn_Get txn now k =
     (case map_of (items (txn_db txn)) k of
        None \<Rightarrow> Inl ErrKeyNotFound
      | Some e \<Rightarrow> if expired e now then Inl ErrKeyNotFound else Inr e)"

definition txn_SetEntry :: "Txn \<Rightarrow> bytes \<times> entry \<Rightarrow> engine_error + Txn" where
  "txn_SetEntry txn ke =
     (case write_fault (txn_db txn) (fst ke) (payload (snd ke)) of
        Some err \<Rightarrow> Inl err
      | None \<Rightarrow> Inr (txn\<lparr>pendingWrites := pendingWrites txn @ [(fst ke, Some (snd ke))]\<rparr>))"

definition txn_Set :: "Txn \<Rightarrow> bytes \<Rightarrow> bytes \<Rightarrow> engine_error + Txn" where
  "txn_Set txn k v = txn_SetEntry txn (NewEntry k v)"

definition txn_Delete :: "Txn \<Rightarrow> bytes \<Rightarrow> engine_error + Txn" where
  "txn_Delete txn k =
     (case write_fault (txn_db txn) k [] of
        Some err \<Rightarrow> Inl err
      | None \<Rightarrow> Inr (txn\<lparr>pendingWrites := pendingWrites txn @ [(k, None)]\<rparr>))"

fun apply_write :: "(bytes \<times> entry) list \<Rightarrow> bytes \<times> entry option \<Rightarrow> (bytes \<times> entry) list" where
  "apply_write tab (k, Some e) = AList.update k e tab"
| "apply_write tab (k, None) = AList.delete k tab"

definition txn_Commit :: "Txn \<Rightarrow> engine_error + DB" where
  "txn_Commit txn =
     (let d = txn_db txn in
      if closed d then Inl ErrDBClosed
      else case commit_fault d of
        Some err \<Rightarrow> Inl err
      | None \<Rightarrow> Inr (d\<lparr>items := foldl apply_write (items d) (pendingWrites txn)\<rparr>))"

text \<open>
  \<^verbatim>\<open>db.View(fn)\<close> runs \<open>fn\<close> on a read-only transaction and hands on its error; on a closed
  engine it fails before running \<open>fn\<close>.
\<close>

definition db_View :: "DB \<Rightarrow> (Txn \<Rightarrow> error + 'a) \<Rightarrow> error + 'a" where
  "db_View d fn = (if IsClosed d then Inl (EngineError ErrDBClosed) else fn (NewTransaction d False))"

text \<open>The items an iterator visits: the entries that have not expired.\<close>

definition iterate :: "Txn \<Rightarrow> time \<Rightarrow> (bytes \<times> entry) list" where
  "iterate txn now = filter (\<lambda>ke. \<not> expired (snd ke) now) (items (txn_db txn))"

section \<open>The store handle and its operations\<close>

text \<open>
  The package-level variables.  \<open>db = None\<close> is the nil pointer.  \<open>gc_started\<close> counts the
  \<^verbatim>\<open>go runGC()\<close> statements executed so far; nothing in the sources stops such a loop.
\<close>

record store =
  db :: "DB option"
  isOpen :: bool
  gc_started :: nat

definition initial_store :: store where
  "initial_store = \<lparr>db = None, isOpen = False, gc_started = 0\<rparr>"

definition STORAGE_PATH :: string where
  "STORAGE_PATH = ''/tmp/golog.d''"

definition DISCARD_RATIO :: real where
  "DISCARD_RATIO = 1 / 2"

text \<open>The guard of both initialize calls: \<^verbatim>\<open>db != nil && !db.IsClosed()\<close>.\<close>

definition still_open :: "store \<Rightarrow> bool" where
  "still_open s = (case db s of None \<Rightarrow> False | Some d \<Rightarrow> \<not> IsClosed d)"

definition InitPersistentMode :: "store \<Rightarrow> engine_error + DB \<Rightarrow> error option \<times> store" where
  "InitPersistentMode s found =
     (if still_open s then (Some AlreadyOpenError, s)
      else case badger_Open (WithSyncWrites (DefaultOptions STORAGE_PATH) False) found of
        Inl err \<Rightarrow> (Some (EngineError err), s)
      | Inr d \<Rightarrow> (None, s\<lparr>gc_started := Suc (gc_started s), db := Some d, isOpen := True\<rparr>))"

definition InitDisklessMode :: "store \<Rightarrow> engine_error + DB \<Rightarrow> error option \<times> store" where
  "InitDisklessMode s found =
     (if still_open s then (Some AlreadyOpenError, s)
      else case badger_Open (WithInMemory (DefaultOptions []) True) found of
        Inl err \<Rightarrow> (Some (EngineError err), s)
      | Inr d \<Rightarrow> (None, s\<lparr>gc_started := Suc (gc_started s), db := Some d, isOpen := True\<rparr>))"

text \<open>\<^verbatim>\<open>GenPK\<close>: the write into the hash never fails, so its error branch is not reachable.\<close>

definition GenPK :: "bytes \<Rightarrow> error + bytes" where
  "GenPK data = (if length data = 0 then Inl EmptyInputError else Inr (md5_sum data))"

text \<open>
  \<^verbatim>\<open>Get\<close>: every error of \<^verbatim>\<open>txn.Get\<close> becomes "key not found"; the value is copied out of the
  item, so a successful \<^verbatim>\<open>Get\<close> returns a slice that is not nil.
\<close>

definition Get :: "store \<Rightarrow> time \<Rightarrow> bytes \<Rightarrow> error + bytes" where
  "Get s now key =
     (if \<not> isOpen s then Inl NotOpenError
      else if length key \<noteq> 16 then Inl InvalidKeyError
      else case db s of
        None \<Rightarrow> Inl NilDereference
      | Some d \<Rightarrow>
          db_View d (\<lambda>txn.
            case txn_Get txn now key of
              Inl err \<Rightarrow> Inl NotFoundError
            | Inr item \<Rightarrow> Inr (payload item)))"

text \<open>
  \<^verbatim>\<open>Set\<close>: the duplicate check is \<^verbatim>\<open>if e, _ := Get(key); e != nil\<close>, which looks at the value
  only: any failure of \<^verbatim>\<open>Get\<close> counts as "no such record".  A failed write discards the
  transaction, a failed commit changes nothing.
\<close>

definition Set :: "store \<Rightarrow> time \<Rightarrow> bytes \<Rightarrow> (error + bytes) \<times> store" where
  "Set s now data =
     (if \<not> isOpen s then (Inl NotOpenError, s)
      else case GenPK data of
        Inl err \<Rightarrow> (Inl err, s)
      | Inr key \<Rightarrow>
          (case Get s now key of
             Inr e \<Rightarrow> (Inl DuplicateKeyError, s)
           | Inl _ \<Rightarrow>
               (case db s of
                  None \<Rightarrow> (Inl NilDereference, s)
                | Some d \<Rightarrow>
                    (case txn_Set (NewTransaction d True) key data of
                       Inl err \<Rightarrow> (Inl (EngineError err), s)
                     | Inr txn \<Rightarrow>
                         (case txn_Commit txn of
                            Inl err \<Rightarrow> (Inl (EngineError err), s)
                          | Inr d' \<Rightarrow> (Inr key, s\<lparr>db := Some d'\<rparr>))))))"

definition SetWithTTL :: "store \<Rightarrow> time \<Rightarrow> bytes \<Rightarrow> duration \<Rightarrow> (error + bytes) \<times> store" where
  "SetWithTTL s now data ttl =
     (if \<not> isOpen s then (Inl NotOpenError, s)
      else case GenPK data of
        Inl err \<Rightarrow> (Inl err, s)
      | Inr key \<Rightarrow>
          (case db s of
             None \<Rightarrow> (Inl NilDereference, s)
           | Some d \<Rightarrow>
               (case txn_SetEntry (NewTransaction d True) (WithTTL (NewEntry key data) now ttl) of
                  Inl err \<Rightarrow> (Inl (EngineError err), s)
                | Inr txn \<Rightarrow>
                    (case txn_Commit txn of
                       Inl err \<Rightarrow> (Inl (EngineError err), s)
                     | Inr d' \<Rightarrow> (Inr key, s\<lparr>db := Some d'\<rparr>)))))"

text \<open>
  \<^verbatim>\<open>GetBatch\<close> returns a Go map, modelled as an association list with one pair per key
  (\<open>AList.update\<close> overwrites); the order of the pairs has no meaning.
\<close>

definition GetBatch :: "store \<Rightarrow> time \<Rightarrow> error + (string \<times> bytes) list" where
  "GetBatch s now =
     (if \<not> isOpen s then Inl NotOpenError
      else case db s of
        None \<Rightarrow> Inl NilDereference
      | Some d \<Rightarrow>
          db_View d (\<lambda>txn.
            Inr (foldl (\<lambda>me item. AList.update (EncodeToString (fst item)) (payload (snd item)) me)
                   [] (iterate txn now))))"

definition Remove :: "store \<Rightarrow> bytes \<Rightarrow> error option \<times> store" where
  "Remove s key =
     (if \<not> isOpen s then (Some NotOpenError, s)
      else case db s of
        None \<Rightarrow> (Some NilDereference, s)
      | Some d \<Rightarrow>
          (case txn_Delete (NewTransaction d True) key of
             Inl err \<Rightarrow> (Some (EngineError err), s)
           | Inr txn \<Rightarrow>
               (case txn_Commit txn of
                  Inl err \<Rightarrow> (Some (EngineError err), s)
                | Inr d' \<Rightarrow> (None, s\<lparr>db := Some d'\<rparr>))))"

text \<open>
  \<^verbatim>\<open>RemoveBatch\<close> has no \<^verbatim>\<open>isOpen\<close> test of its own.  It first opens a transaction on \<^verbatim>\<open>db\<close>
  (a panic when \<^verbatim>\<open>db\<close> is nil) that it never uses, then calls \<^verbatim>\<open>Remove\<close> on every key of
  non-zero length and files each error under the base64 text of the key.
\<close>

fun RemoveBatch_loop ::
  "store \<Rightarrow> bytes list \<Rightarrow> (string \<times> error) list \<Rightarrow> (string \<times> error) list \<times> store" where
  "RemoveBatch_loop s [] errs = (errs, s)"
| "RemoveBatch_loop s (k # ks) errs =
     (if length k = 0 then RemoveBatch_loop s ks errs
      else case Remove s k of
        (Some err, s') \<Rightarrow> RemoveBatch_loop s' ks (AList.update (EncodeToString k) err errs)
      | (None, s') \<Rightarrow> RemoveBatch_loop s' ks errs)"

definition RemoveBatch ::
  "store \<Rightarrow> bytes list \<Rightarrow> (error + bool \<times> (string \<times> error) list) \<times> store" where
  "RemoveBatch s keys =
     (case db s of
        None \<Rightarrow> (Inl NilDereference, s)
      | Some d \<Rightarrow>
          (let txn = NewTransaction d True;
               (errs, s') = RemoveBatch_loop s keys []
           in (Inr (length errs = 0, errs), s')))"

definition IsOpen :: "store \<Rightarrow> bool" where
  "IsOpen s = isOpen s"

definition Close :: "store \<Rightarrow> error option \<times> store" where
  "Close s =
     (case db s of
        None \<Rightarrow> (None, s\<lparr>isOpen := False\<rparr>)
      | Some d \<Rightarrow>
          if IsClosed d then (None, s\<lparr>isOpen := False\<rparr>)
          else (let (err, d') = db_Close d
                in (map_option EngineError err, s\<lparr>isOpen := False, db := Some d'\<rparr>)))"

section \<open>The reclamation loop\<close>

text \<open>
  \<^verbatim>\<open>runGC\<close> calls the engine inside \<^verbatim>\<open>for range ticker.C\<close>.  What \<^verbatim>\<open>db.RunValueLogGC\<close> answers
  is not determined by the sources, so the answers are an argument: the list of the
  results of the successive calls, \<open>None\<close> for a nil error (a log file was rewritten).
  \<open>gc_pass\<close> is the body of the loop for one tick; it returns the calls it made, in order,
  and the answers it did not consume.  \<open>None\<close> means the answers ran out before the body
  reached its end.  \<open>runGC n\<close> is the loop over the first \<open>n\<close> ticks.
\<close>

datatype gc_event = Tick | RunValueLogGC real | LogPrint string | Sync

fun gc_pass :: "engine_error option list \<Rightarrow> (gc_event list \<times> engine_error option list) option" where
  "gc_pass [] = None"
| "gc_pass (None # answers) =
     (case gc_pass answers of
        None \<Rightarrow> None
      | Some (evs, rest) \<Rightarrow> Some (RunValueLogGC DISCARD_RATIO # evs, rest))"
| "gc_pass (Some err # answers) =
     Some ([RunValueLogGC DISCARD_RATIO, LogPrint ''data store garbage collection failed'', Sync],
           answers)"

fun runGC :: "nat \<Rightarrow> engine_error option list \<Rightarrow> gc_event list option" where
  "runGC 0 answers = Some []"
| "runGC (Suc n) answers =
     (case gc_pass answers of
        None \<Rightarrow> None
      | Some (evs, rest) \<Rightarrow> map_option (\<lambda>later. Tick # evs @ later) (runGC n rest))"

section \<open>Notions of the specification\<close>

text \<open>
  A record is live at \<open>now\<close> when the table holds an entry for its key that has not
  expired.  The handle is open on the engine \<open>d\<close> when the flag is set and \<^verbatim>\<open>db\<close> points to
  \<open>d\<close>, which is not closed.
\<close>

definition live_record :: "DB \<Rightarrow> time \<Rightarrow> bytes \<Rightarrow> entry option" where
  "live_record d now k =
     (case map_of (items d) k of
        None \<Rightarrow> None
      | Some e \<Rightarrow> if expired e now then None else Some e)"

definition live_records :: "DB \<Rightarrow> time \<Rightarrow> (bytes \<times> entry) list" where
  "live_records d now = filter (\<lambda>ke. \<not> expired (snd ke) now) (items d)"

definition open_handle :: "store \<Rightarrow> DB \<Rightarrow> bool" where
  "open_handle s d = (isOpen s \<and> db s = Some d \<and> \<not> closed d)"

text \<open>The engine keeps one entry per key.\<close>

definition db_wf :: "DB \<Rightarrow> bool" where
  "db_wf d = distinct (map fst (items d))"

text \<open>
  The flag \<^verbatim>\<open>isOpen\<close> agrees with the engine: it is set exactly when \<^verbatim>\<open>db\<close> points to an
  engine that is not closed.
\<close>

definition handle_inv :: "store \<Rightarrow> bool" where
  "handle_inv s =
     (case db s of
        None \<Rightarrow> \<not> isOpen s
      | Some d \<Rightarrow> (isOpen s = (\<not> closed d)) \<and> db_wf d)"

text \<open>
  A table is content addressed when the key of every entry, expired or not, is the
  \<^verbatim>\<open>GenPK\<close> of the entry's payload and no payload is empty.
\<close>

definition content_addressed :: "(bytes \<times> entry) list \<Rightarrow> bool" where
  "content_addressed tab =
     list_all (\<lambda>ke. payload (snd ke) \<noteq> [] \<and> GenPK (payload (snd ke)) = Inr (fst ke)) tab"

definition store_inv :: "store \<Rightarrow> bool" where
  "store_inv s = (case db s of None \<Rightarrow> True | Some d \<Rightarrow> content_addressed (items d))"

text \<open>
  What \<^verbatim>\<open>badger.Open\<close> may find at \<^verbatim>\<open>STORAGE_PATH\<close>: a failure, or a table that earlier runs of
  this package left there.
\<close>

definition written_by_mstore :: "engine_error + DB \<Rightarrow> bool" where
  "written_by_mstore found =
     (case found of
        Inl err \<Rightarrow> True
      | Inr d \<Rightarrow> content_addressed (items d) \<and> db_wf d)"

text \<open>
  The states of the two package variables that the exported functions can produce,
  starting from a process in which nothing has been opened.  \<^verbatim>\<open>Get\<close>, \<^verbatim>\<open>GetBatch\<close>, \<^verbatim>\<open>GenPK\<close>
  and \<^verbatim>\<open>IsOpen\<close> do not write the variables.
\<close>

inductive reachable :: "store \<Rightarrow> bool" where
  reach_initial: "reachable initial_store"
| reach_InitPersistentMode:
    "reachable s \<Longrightarrow> written_by_mstore found \<Longrightarrow> reachable (snd (InitPersistentMode s found))"
| reach_InitDisklessMode: "reachable s \<Longrightarrow> reachable (snd (InitDisklessMode s found))"
| reach_Close: "reachable s \<Longrightarrow> reachable (snd (Close s))"
| reach_Set: "reachable s \<Longrightarrow> reachable (snd (Set s now data))"
| reach_SetWithTTL: "reachable s \<Longrightarrow> reachable (snd (SetWithTTL s now data ttl))"
| reach_Remove: "reachable s \<Longrightarrow> reachable (snd (Remove s key))"
| reach_RemoveBatch: "reachable s \<Longrightarrow> reachable (snd (RemoveBatch s keys))"

section \<open>Concrete engines and stores\<close>

text \<open>
  An engine that never fails, holding the table \<open>tab\<close>, and the handle open on it; the
  handle after \<^verbatim>\<open>Close\<close>; an engine that rejects every write to the key \<open>bad\<close>.
\<close>

definition engine_with :: "(bytes \<times> entry) list \<Rightarrow> DB" where
  "engine_with tab =
     \<lparr>opts = WithInMemory (DefaultOptions []) True, items = tab, closed = False,
      write_fault = (\<lambda>k v. None), commit_fault = None, close_fault = None\<rparr>"

definition open_store :: "(bytes \<times> entry) list \<Rightarrow> store" where
  "open_store tab = \<lparr>db = Some (engine_with tab), isOpen = True, gc_started = 1\<rparr>"

definition closed_store :: store where
  "closed_store = \<lparr>db = Some ((engine_with [])\<lparr>closed := True\<rparr>), isOpen = False, gc_started = 1\<rparr>"

definition engine_rejecting :: "bytes \<Rightarrow> (bytes \<times> entry) list \<Rightarrow> DB" where
  "engine_rejecting bad tab =
     (engine_with tab)\<lparr>write_fault := (\<lambda>k v. if k = bad then Some (ErrEngine ''rejected'') else None)\<rparr>"

definition rejecting_store :: "bytes \<Rightarrow> (bytes \<times> entry) list \<Rightarrow> store" where
  "rejecting_store bad tab = \<lparr>db = Some (engine_rejecting bad tab), isOpen = True, gc_started = 1\<rparr>"

definition plain :: "bytes \<Rightarrow> bytes \<times> entry" where
  "plain v = (md5_sum v, \<lparr>payload = v, expires_at = None\<rparr>)"

definition expiring :: "bytes \<Rightarrow> time \<Rightarrow> bytes \<times> entry" where
  "expiring v t = (md5_sum v, \<lparr>payload = v, expires_at = Some t\<rparr>)"

section \<open>Facts about the digest and the text form\<close>

lemma length_le_bytes: "length (le_bytes n w) = n"
  by (simp add: le_bytes_def)

lemma length_md5_sum: "length (md5_sum m) = 16"
  by (simp add: md5_sum_def split_beta length_le_bytes)

lemma GenPK_Inr: "GenPK data = Inr key \<Longrightarrow> data \<noteq> [] \<and> key = md5_sum data \<and> length key = 16"
  by (auto simp: GenPK_def length_md5_sum split: if_splits)

lemma b64_alphabet_length: "length b64_alphabet = 64"
  by (simp add: b64_alphabet_def)

lemma b64_alphabet_distinct: "distinct b64_alphabet"
  by (simp add: b64_alphabet_def)

lemma b64_pad_notin: "CHR ''='' \<notin> set b64_alphabet"
  by (simp add: b64_alphabet_def)

lemma b64_char_inj: "m < 64 \<Longrightarrow> n < 64 \<Longrightarrow> b64_char m = b64_char n \<longleftrightarrow> m = n"
  unfolding b64_char_def
  by (rule nth_eq_iff_index_eq) (simp_all add: b64_alphabet_distinct b64_alphabet_length)

lemma b64_char_not_pad: "n < 64 \<Longrightarrow> b64_char n \<noteq> CHR ''=''"
  unfolding b64_char_def
  by (metis b64_alphabet_length b64_pad_notin nth_mem)

lemma unat_byte_less: "unat (a :: byte) < 256"
  using unsigned_less [of a] by simp

lemma unat_byte_inj: "unat (a :: byte) = unat a' \<Longrightarrow> a = a'"
  by (simp add: word_unat_eq_iff)

lemma split_pair:
  fixes x y x' y' k :: nat
  assumes "y < k" "y' < k" "x * k + y = x' * k + y'"
  shows "x = x' \<and> y = y'"
proof -
  have "(x * k + y) div k = x" "(x * k + y) mod k = y"
    using assms(1) by simp_all
  moreover have "(x' * k + y') div k = x'" "(x' * k + y') mod k = y'"
    using assms(2) by simp_all
  ultimately show ?thesis
    using assms(3) by metis
qed

lemma div_mod_eq:
  fixes a a' k :: nat
  assumes "a div k = a' div k" "a mod k = a' mod k"
  shows "a = a'"
  by (metis assms div_mult_mod_eq)

lemma sextets3:
  fixes a b c a' b' c' :: nat
  assumes "a < 256" "b < 256" "c < 256" "a' < 256" "b' < 256" "c' < 256"
    and e1: "a div 4 = a' div 4"
    and e2: "a mod 4 * 16 + b div 16 = a' mod 4 * 16 + b' div 16"
    and e3: "b mod 16 * 4 + c div 64 = b' mod 16 * 4 + c' div 64"
    and e4: "c mod 64 = c' mod 64"
  shows "a = a' \<and> b = b' \<and> c = c'"
proof -
  have bb: "b div 16 < 16" "b' div 16 < 16"
    using assms(2,5) by simp_all
  have cc: "c div 64 < 4" "c' div 64 < 4"
    using assms(3,6) by simp_all
  have p2: "a mod 4 = a' mod 4 \<and> b div 16 = b' div 16"
    by (rule split_pair [OF bb e2])
  have p3: "b mod 16 = b' mod 16 \<and> c div 64 = c' div 64"
    by (rule split_pair [OF cc e3])
  have "a = a'" by (rule div_mod_eq [OF e1]) (simp add: p2)
  moreover have "b = b'" by (rule div_mod_eq [of b 16 b']) (simp_all add: p2 p3)
  moreover have "c = c'" by (rule div_mod_eq [of c 64 c']) (simp_all add: p3 e4)
  ultimately show ?thesis by simp
qed

lemma sextet_bounds:
  fixes a b c :: byte
  shows "unat a div 4 < 64"
    and "unat a mod 4 * 16 < 64"
    and "unat a mod 4 * 16 + unat b div 16 < 64"
    and "unat b mod 16 * 4 < 64"
    and "unat b mod 16 * 4 + unat c div 64 < 64"
    and "unat c mod 64 < 64"
proof -
  have "unat a mod 4 < 4" "unat b mod 16 < 16" by simp_all
  moreover have "unat b div 16 < 16" "unat c div 64 < 4"
    using unat_byte_less [of b] unat_byte_less [of c] by simp_all
  ultimately show "unat a mod 4 * 16 < 64" "unat a mod 4 * 16 + unat b div 16 < 64"
    "unat b mod 16 * 4 < 64" "unat b mod 16 * 4 + unat c div 64 < 64"
    by linarith+
  show "unat a div 4 < 64" using unat_byte_less [of a] by simp
  show "unat c mod 64 < 64" by simp
qed

lemmas b64_pad_neq = sextet_bounds [THEN b64_char_not_pad] sextet_bounds [THEN b64_char_not_pad, symmetric]

lemma EncodeToString_inj: "EncodeToString xs = EncodeToString ys \<Longrightarrow> xs = ys"
proof (induction xs arbitrary: ys rule: EncodeToString.induct)
  case 1
  then show ?case by (cases ys rule: EncodeToString.cases) simp_all
next
  case (2 a)
  show ?case
  proof (cases ys rule: EncodeToString.cases)
    case 1
    with 2 show ?thesis by simp
  next
    case (2 a')
    with "2.prems" have e: "unat a div 4 = unat a' div 4" "unat a mod 4 * 16 = unat a' mod 4 * 16"
      by (simp_all add: b64_char_inj sextet_bounds)
    have "unat a = unat a'"
      by (rule div_mod_eq [of _ 4]) (use e in simp_all)
    then show ?thesis using 2 by (simp add: unat_byte_inj)
  next
    case (3 a' b')
    with "2.prems" show ?thesis by (simp add: b64_pad_neq)
  next
    case (4 a' b' c' rest)
    with "2.prems" show ?thesis by (simp add: b64_pad_neq)
  qed
next
  case (3 a b)
  note lt = unat_byte_less
  show ?case
  proof (cases ys rule: EncodeToString.cases)
    case 1
    with 3 show ?thesis by simp
  next
    case (2 a')
    with "3.prems" show ?thesis by (simp add: b64_pad_neq)
  next
    case (3 a' b')
    with "3.prems" have e: "unat a div 4 = unat a' div 4"
      "unat a mod 4 * 16 + unat b div 16 = unat a' mod 4 * 16 + unat b' div 16"
      "unat b mod 16 * 4 + 0 div 64 = unat b' mod 16 * 4 + 0 div 64"
      by (simp_all add: b64_char_inj sextet_bounds)
    have "unat a = unat a' \<and> unat b = unat b' \<and> (0::nat) = 0"
      by (rule sextets3 [OF lt lt _ lt lt _ e]) simp_all
    then show ?thesis using 3 by (simp add: unat_byte_inj)
  next
    case (4 a' b' c' rest)
    with "3.prems" show ?thesis by (simp add: b64_pad_neq)
  qed
next
  case (4 a b c rest)
  note lt = unat_byte_less
  show ?case
  proof (cases ys rule: EncodeToString.cases)
    case 1
    with "4.prems" show ?thesis by simp
  next
    case (2 a')
    with "4.prems" show ?thesis by (simp add: b64_pad_neq)
  next
    case (3 a' b')
    with "4.prems" show ?thesis by (simp add: b64_pad_neq)
  next
    case (4 a' b' c' rest')
    with "4.prems" have e: "unat a div 4 = unat a' div 4"
      "unat a mod 4 * 16 + unat b div 16 = unat a' mod 4 * 16 + unat b' div 16"
      "unat b mod 16 * 4 + unat c div 64 = unat b' mod 16 * 4 + unat c' div 64"
      "unat c mod 64 = unat c' mod 64"
      and r: "EncodeToString rest = EncodeToString rest'"
      by (simp_all add: b64_char_inj sextet_bounds)
    have "unat a = unat a' \<and> unat b = unat b' \<and> unat c = unat c'"
      by (rule sextets3 [OF lt lt lt lt lt lt e])
    moreover have "rest = rest'" by (rule "4.IH" [OF r])
    ultimately show ?thesis using 4 by (simp add: unat_byte_inj)
  qed
qed

lemma EncodeToString_inj_on: "inj_on EncodeToString A"
  by (rule inj_onI) (rule EncodeToString_inj)

text \<open>Two digests and their text forms, computed from the definitions.\<close>

lemma md5_sum_1:
  "md5_sum [1] = [85, 165, 64, 8, 173, 27, 165, 137, 170, 33, 13, 38, 41, 193, 223, 65]"
  by code_simp

lemma md5_sum_2:
  "md5_sum [2] = [158, 104, 140, 88, 165, 72, 123, 142, 175, 105, 201, 225, 0, 90, 208, 191]"
  by code_simp

lemma b64_md5_sum_1: "EncodeToString (md5_sum [1]) = ''VaVACK0bpYmqIQ0mKcHfQQ==''"
  by (simp add: md5_sum_1 b64_char_def b64_alphabet_def)

lemma b64_md5_sum_2: "EncodeToString (md5_sum [2]) = ''nmiMWKVIe46vacnhAFrQvw==''"
  by (simp add: md5_sum_2 b64_char_def b64_alphabet_def)

section \<open>The operations on an open handle\<close>

text \<open>
  What each operation computes when the handle is open on an engine \<open>d\<close>, with the
  engine's verdicts written out.
\<close>

lemma Get_open:
  assumes "open_handle s d"
  shows "Get s now key =
     (if length key \<noteq> 16 then Inl InvalidKeyError
      else case live_record d now key of None \<Rightarrow> Inl NotFoundError | Some e \<Rightarrow> Inr (payload e))"
  using assms
  by (simp add: open_handle_def Get_def db_View_def IsClosed_def txn_Get_def NewTransaction_def
      live_record_def split: option.splits)

lemma Commit_open:
  "\<not> closed d \<Longrightarrow> txn_db txn = d \<Longrightarrow> txn_Commit txn =
     (case commit_fault d of Some err \<Rightarrow> Inl err
      | None \<Rightarrow> Inr (d\<lparr>items := foldl apply_write (items d) (pendingWrites txn)\<rparr>))"
  by (simp add: txn_Commit_def)

lemma Set_dup:
  assumes "open_handle s d" "GenPK data = Inr key" "live_record d now key = Some e"
  shows "Set s now data = (Inl DuplicateKeyError, s)"
  using assms GenPK_Inr[OF assms(2)]
  by (simp add: Set_def Get_open[OF assms(1)] open_handle_def length_md5_sum)

lemma SetWithTTL_open:
  assumes "open_handle s d" "GenPK data = Inr key"
  shows "SetWithTTL s now data ttl =
     (case write_fault d key data of
        Some err \<Rightarrow> (Inl (EngineError err), s)
      | None \<Rightarrow>
         (case commit_fault d of
            Some err \<Rightarrow> (Inl (EngineError err), s)
          | None \<Rightarrow> (Inr key, s\<lparr>db := Some (d\<lparr>items :=
               AList.update key \<lparr>payload = data, expires_at = Some (now + ttl)\<rparr> (items d)\<rparr>)\<rparr>)))"
  using assms
  by (simp add: SetWithTTL_def open_handle_def txn_SetEntry_def NewTransaction_def WithTTL_def
      NewEntry_def txn_Commit_def split: option.splits)

lemma Set_open:
  assumes "open_handle s d" "GenPK data = Inr key" "live_record d now key = None"
  shows "Set s now data =
     (case write_fault d key data of
        Some err \<Rightarrow> (Inl (EngineError err), s)
      | None \<Rightarrow>
         (case commit_fault d of
            Some err \<Rightarrow> (Inl (EngineError err), s)
          | None \<Rightarrow> (Inr key, s\<lparr>db := Some (d\<lparr>items :=
               AList.update key \<lparr>payload = data, expires_at = None\<rparr> (items d)\<rparr>)\<rparr>)))"
  using assms GenPK_Inr[OF assms(2)]
  by (simp add: Set_def Get_open[OF assms(1)] open_handle_def length_md5_sum txn_SetEntry_def txn_Set_def NewTransaction_def
      NewEntry_def txn_Commit_def split: option.splits)

lemma Remove_open:
  assumes "open_handle s d"
  shows "Remove s key =
     (case write_fault d key [] of
        Some err \<Rightarrow> (Some (EngineError err), s)
      | None \<Rightarrow>
         (case commit_fault d of
            Some err \<Rightarrow> (Some (EngineError err), s)
          | None \<Rightarrow> (None, s\<lparr>db := Some (d\<lparr>items := AList.delete key (items d)\<rparr>)\<rparr>)))"
  using assms
  by (simp add: Remove_def open_handle_def txn_Delete_def NewTransaction_def txn_Commit_def
      split: option.splits)

lemma open_handle_still_open: "open_handle s d \<Longrightarrow> still_open s"
  by (simp add: open_handle_def still_open_def IsClosed_def)

lemma open_store_handle: "open_handle (open_store tab) (engine_with tab)"
  by (simp add: open_handle_def open_store_def engine_with_def)

section \<open>Reading all records\<close>

text \<open>
  The keys of the table are distinct and the text form is injective, so every
  \<open>AList.update\<close> in the loop of \<^verbatim>\<open>GetBatch\<close> appends a new pair: the result lists the live
  records in the order of the iteration.
\<close>

lemma update_fresh: "k \<notin> fst ` set al \<Longrightarrow> AList.update k v al = al @ [(k, v)]"
  by (induction al) auto

lemma foldl_update_fresh:
  assumes "distinct (map f xs)" "f ` set xs \<inter> fst ` set acc = {}"
  shows "foldl (\<lambda>me x. AList.update (f x) (g x) me) acc xs = acc @ map (\<lambda>x. (f x, g x)) xs"
  using assms
proof (induction xs arbitrary: acc)
  case Nil
  then show ?case by simp
next
  case (Cons x xs)
  from Cons.prems have fresh: "f x \<notin> fst ` set acc" by auto
  have "f ` set xs \<inter> fst ` set (acc @ [(f x, g x)]) = {}"
    using Cons.prems by auto
  with Cons.IH [of "acc @ [(f x, g x)]"] Cons.prems(1) show ?case
    by (simp add: update_fresh [OF fresh])
qed

lemma distinct_map_inj:
  "distinct (map f xs) \<Longrightarrow> (\<And>a b. g a = g b \<Longrightarrow> a = b) \<Longrightarrow> distinct (map (\<lambda>x. g (f x)) xs)"
  by (induction xs) auto

lemma live_records_distinct:
  assumes "db_wf d"
  shows "distinct (map (\<lambda>ke. EncodeToString (fst ke)) (live_records d now))"
proof -
  have "distinct (map fst (live_records d now))"
    using assms by (simp add: db_wf_def live_records_def distinct_map_filter)
  then show ?thesis
    by (rule distinct_map_inj) (rule EncodeToString_inj)
qed

lemma live_records_iff:
  assumes "db_wf d"
  shows "(k, e) \<in> set (live_records d now) \<longleftrightarrow> live_record d now k = Some e"
proof -
  have m: "(k, e) \<in> set (items d) \<longleftrightarrow> map_of (items d) k = Some e"
    using assms by (simp add: db_wf_def)
  show ?thesis
    unfolding live_records_def live_record_def
    by (auto simp: m split: option.splits)
qed

lemma GetBatch_open:
  assumes "open_handle s d" "db_wf d"
  shows "GetBatch s now =
    Inr (map (\<lambda>ke. (EncodeToString (fst ke), payload (snd ke))) (live_records d now))"
proof -
  have "iterate (NewTransaction d False) now = live_records d now"
    by (simp add: iterate_def live_records_def NewTransaction_def)
  then show ?thesis
    using assms(1) foldl_update_fresh [OF live_records_distinct [OF assms(2)], where acc = "[]"
        and g = "\<lambda>ke. payload (snd ke)" and now1 = now]
    by (simp add: GetBatch_def open_handle_def db_View_def IsClosed_def)
qed

lemma two_records_wf: "db_wf (engine_with [plain [1], expiring [2] 5])"
  by (simp add: db_wf_def engine_with_def plain_def expiring_def md5_sum_1 md5_sum_2)

section \<open>Deleting records\<close>

text \<open>
  Whether \<^verbatim>\<open>Remove\<close> fails on an open handle depends on the key and on the verdicts of the
  engine, not on the table, so a successful deletion does not change what \<^verbatim>\<open>Remove\<close>
  answers for the keys still to come.  The loop of \<^verbatim>\<open>RemoveBatch\<close> is therefore two folds
  over the keys of non-zero length: one files the errors, one deletes.
\<close>

lemma delete_absent: "map_of al k = None \<Longrightarrow> AList.delete k al = al"
  by (induction al) (auto split: if_splits)

lemma foldl_delete_map_of:
  "map_of (foldl (\<lambda>tab k. AList.delete k tab) tab ks) k =
     (if k \<in> set ks then None else map_of tab k)"
  by (induction ks arbitrary: tab) (auto simp: delete_conv)

lemma foldl_delete_distinct:
  "distinct (map fst tab) \<Longrightarrow> distinct (map fst (foldl (\<lambda>tab k. AList.delete k tab) tab ks))"
  by (induction ks arbitrary: tab) (auto simp: distinct_delete)

lemma errs_map_of:
  "map_of (foldl (\<lambda>er k. case V k of Some e \<Rightarrow> AList.update (EncodeToString k) e er | None \<Rightarrow> er)
             [] ks) str = Some err
   \<longleftrightarrow> (\<exists>k\<in>set ks. str = EncodeToString k \<and> V k = Some err)"
proof (induction ks rule: rev_induct)
  case Nil
  then show ?case by simp
next
  case (snoc x xs)
  show ?case
  proof (cases "V x")
    case None
    with snoc show ?thesis by auto
  next
    case (Some e)
    with snoc show ?thesis
      by (auto simp: update_conv' dest: EncodeToString_inj)
  qed
qed

lemma Remove_open_fst:
  assumes "open_handle s d"
  shows "fst (Remove s k) =
     (case write_fault d k [] of
        Some err \<Rightarrow> Some (EngineError err)
      | None \<Rightarrow> map_option EngineError (commit_fault d))"
  by (simp add: Remove_open [OF assms] split: option.splits)

lemma Remove_open_snd:
  assumes "open_handle s d"
  shows "snd (Remove s k) =
     (if fst (Remove s k) = None then s\<lparr>db := Some (d\<lparr>items := AList.delete k (items d)\<rparr>)\<rparr> else s)"
  by (simp add: Remove_open [OF assms] split: option.splits)

lemma open_handle_items:
  "open_handle s d \<Longrightarrow> open_handle (s\<lparr>db := Some (d\<lparr>items := tab\<rparr>)\<rparr>) (d\<lparr>items := tab\<rparr>)"
  by (simp add: open_handle_def)

lemma Remove_fst_items:
  assumes "open_handle s d"
  shows "fst (Remove (s\<lparr>db := Some (d\<lparr>items := tab\<rparr>)\<rparr>) k) = fst (Remove s k)"
  by (simp add: Remove_open_fst [OF assms] Remove_open_fst [OF open_handle_items [OF assms]]
      split: option.splits)

lemma RemoveBatch_loop_open:
  assumes "open_handle s d"
  shows "RemoveBatch_loop s keys errs =
    (foldl (\<lambda>er k. case fst (Remove s k) of
                      Some e \<Rightarrow> AList.update (EncodeToString k) e er | None \<Rightarrow> er)
       errs [k\<leftarrow>keys. k \<noteq> []],
     s\<lparr>db := Some (d\<lparr>items := foldl (\<lambda>tab k. AList.delete k tab) (items d)
                                  [k\<leftarrow>keys. k \<noteq> [] \<and> fst (Remove s k) = None]\<rparr>)\<rparr>)"
  using assms
proof (induction keys arbitrary: s d errs)
  case Nil
  then show ?case by (simp add: open_handle_def)
next
  case (Cons k ks)
  show ?case
  proof (cases "k = []")
    case True
    with Cons show ?thesis by simp
  next
    case ne: False
    show ?thesis
    proof (cases "fst (Remove s k)")
      case None
      let ?d1 = "d\<lparr>items := AList.delete k (items d)\<rparr>"
      let ?s1 = "s\<lparr>db := Some ?d1\<rparr>"
      have r: "Remove s k = (None, ?s1)"
        using None Remove_open_snd [OF Cons.prems, of k] by (simp add: prod_eq_iff)
      have v: "\<And>k'. fst (Remove ?s1 k') = fst (Remove s k')"
        by (rule Remove_fst_items [OF Cons.prems])
      from Cons.IH [OF open_handle_items [OF Cons.prems], of "AList.delete k (items d)" errs]
      show ?thesis using ne None r by (simp add: v)
    next
      case (Some e)
      have r: "Remove s k = (Some e, s)"
        using Some Remove_open_snd [OF Cons.prems, of k] by (simp add: prod_eq_iff)
      from Cons.IH [OF Cons.prems, of "AList.update (EncodeToString k) e errs"]
      show ?thesis using ne Some r by simp
    qed
  qed
qed

lemma RemoveBatch_open:
  assumes "open_handle s d"
  shows "RemoveBatch s keys =
    (let errs = foldl (\<lambda>er k. case fst (Remove s k) of
                      Some e \<Rightarrow> AList.update (EncodeToString k) e er | None \<Rightarrow> er)
                  [] [k\<leftarrow>keys. k \<noteq> []]
     in (Inr (errs = [], errs),
         s\<lparr>db := Some (d\<lparr>items := foldl (\<lambda>tab k. AList.delete k tab) (items d)
                                  [k\<leftarrow>keys. k \<noteq> [] \<and> fst (Remove s k) = None]\<rparr>)\<rparr>))"
  using assms
  by (simp add: RemoveBatch_def RemoveBatch_loop_open [OF assms] open_handle_def Let_def)

lemma rejecting_store_handle: "open_handle (rejecting_store bad tab) (engine_rejecting bad tab)"
  by (simp add: open_handle_def rejecting_store_def engine_rejecting_def engine_with_def)

section \<open>Key derivation\<close>

text \<open>
  Claim C7.  \<^verbatim>\<open>GenPK\<close> on a payload of length zero fails with \<open>EmptyInputError\<close>; on every
  other payload it succeeds and the key has exactly 16 bytes.  \<^verbatim>\<open>GenPK\<close> takes the payload
  and nothing else (no store is among its arguments), so equal payloads give equal
  results.
\<close>

theorem GenPK_contract:
  "(length data = 0 \<longrightarrow> GenPK data = Inl EmptyInputError) \<and>
   (length data \<noteq> 0 \<longrightarrow> (\<exists>key. GenPK data = Inr key \<and> length key = 16)) \<and>
   (data' = data \<longrightarrow> GenPK data' = GenPK data)"
  by (simp add: GenPK_def length_md5_sum)

theorem GenPK_contract_witness:
  "GenPK [] = Inl EmptyInputError \<and> (\<exists>key. GenPK [1] = Inr key \<and> length key = 16)"
  using GenPK_contract [of "[]" "[]"] GenPK_contract [of "[1]" "[1]"] by simp

section \<open>Initializing an open handle\<close>

text \<open>
  Claim C6.  While the handle is open on an engine, of either mode, \<^verbatim>\<open>InitPersistentMode\<close>
  and \<^verbatim>\<open>InitDisklessMode\<close> both fail with \<open>AlreadyOpenError\<close>, whatever the engine would
  find, and return the state they were given: the same engine with the same records, the
  same flag, and no further reclamation loop.
\<close>

theorem init_while_open:
  assumes "open_handle s d"
  shows "InitPersistentMode s found = (Some AlreadyOpenError, s) \<and>
         InitDisklessMode s found = (Some AlreadyOpenError, s)"
  using open_handle_still_open [OF assms]
  by (simp add: InitPersistentMode_def InitDisklessMode_def)

theorem init_while_open_witness:
  "InitPersistentMode (open_store [plain [1]]) (Inr (engine_with [])) =
     (Some AlreadyOpenError, open_store [plain [1]]) \<and>
   InitDisklessMode (open_store [plain [1]]) (Inr (engine_with [])) =
     (Some AlreadyOpenError, open_store [plain [1]]) \<and>
   open_handle (snd (InitPersistentMode initial_store (Inr (engine_with []))))
     ((engine_with [])\<lparr>opts := WithSyncWrites (DefaultOptions STORAGE_PATH) False\<rparr>) \<and>
   InitDisklessMode (snd (InitPersistentMode initial_store (Inr (engine_with [])))) (Inr (engine_with [])) =
     (Some AlreadyOpenError, snd (InitPersistentMode initial_store (Inr (engine_with []))))"
proof -
  have h: "open_handle (snd (InitPersistentMode initial_store (Inr (engine_with []))))
     ((engine_with [])\<lparr>opts := WithSyncWrites (DefaultOptions STORAGE_PATH) False\<rparr>)"
    by (simp add: open_handle_def InitPersistentMode_def initial_store_def still_open_def
        badger_Open_def engine_with_def WithSyncWrites_def DefaultOptions_def)
  show ?thesis
    using init_while_open [OF open_store_handle, of "[plain [1]]" "Inr (engine_with [])"]
      init_while_open [OF h, of "Inr (engine_with [])"] h
    by simp
qed

section \<open>Reading a record\<close>

text \<open>
  Claim C4.  On an open handle \<^verbatim>\<open>Get\<close> fails with \<open>InvalidKeyError\<close> for every key that is not
  16 bytes long; for a key of 16 bytes without a live record (none at all, or only an
  expired one) it fails with \<open>NotFoundError\<close>; for a key with a live record it returns the
  payload stored under the key.  In a content-addressed store every key with a record has
  16 bytes, so there the last case needs no assumption on the length.
\<close>

theorem Get_contract:
  assumes "open_handle s d"
  shows "(length key \<noteq> 16 \<longrightarrow> Get s now key = Inl InvalidKeyError) \<and>
         (length key = 16 \<longrightarrow> live_record d now key = None \<longrightarrow> Get s now key = Inl NotFoundError) \<and>
         (length key = 16 \<longrightarrow> live_record d now key = Some e \<longrightarrow> Get s now key = Inr (payload e)) \<and>
         (store_inv s \<longrightarrow> live_record d now key = Some e \<longrightarrow> Get s now key = Inr (payload e))"
proof -
  have "length key = 16" if "store_inv s" "live_record d now key = Some e"
  proof -
    from that(2) have "(key, e) \<in> set (items d)"
      by (auto simp: live_record_def split: option.splits if_splits dest: map_of_SomeD)
    with that(1) assms have "GenPK (payload e) = Inr key"
      by (auto simp: store_inv_def open_handle_def content_addressed_def list_all_iff)
    then show ?thesis by (simp add: GenPK_Inr)
  qed
  then show ?thesis
    by (auto simp: Get_open [OF assms])
qed

theorem Get_contract_witness:
  "Get (open_store [expiring [1] 5]) 4 [1, 2, 3] = Inl InvalidKeyError \<and>
   Get (open_store []) 4 (md5_sum [1]) = Inl NotFoundError \<and>
   Get (open_store [expiring [1] 5]) 5 (md5_sum [1]) = Inl NotFoundError \<and>
   Get (open_store [expiring [1] 5]) 4 (md5_sum [1]) = Inr [1]"
proof -
  have l: "live_record (engine_with []) 4 (md5_sum [1]) = None"
    "live_record (engine_with [expiring [1] 5]) 5 (md5_sum [1]) = None"
    "live_record (engine_with [expiring [1] 5]) 4 (md5_sum [1]) = Some \<lparr>payload = [1], expires_at = Some 5\<rparr>"
    by (simp_all add: live_record_def engine_with_def expiring_def expired_def)
  show ?thesis
    using Get_contract [OF open_store_handle, of "[1, 2, 3]" "[expiring [1] 5]" 4]
      Get_contract [OF open_store_handle, of "md5_sum [1]" "[]" 4]
      Get_contract [OF open_store_handle, of "md5_sum [1]" "[expiring [1] 5]" 5]
      Get_contract [OF open_store_handle, of "md5_sum [1]" "[expiring [1] 5]" 4 "\<lparr>payload = [1], expires_at = Some 5\<rparr>"]
      l
    by (simp add: length_md5_sum)
qed

section \<open>Duplicates\<close>

text \<open>
  Claim C2.  When the key derived from a payload has a live record in the open store,
  \<^verbatim>\<open>Set\<close> fails with \<open>DuplicateKeyError\<close> and returns the state unchanged.  \<^verbatim>\<open>SetWithTTL\<close> on the
  same payload never answers \<open>DuplicateKeyError\<close>: it has no such test, and unless the
  engine itself refuses the write or the commit it returns the key and replaces the entry
  by one that holds the payload and expires at \<open>now + ttl\<close>.
\<close>

theorem duplicate_handling:
  assumes "open_handle s d" "GenPK data = Inr key" "live_record d now key = Some e"
  shows "Set s now data = (Inl DuplicateKeyError, s) \<and>
         fst (SetWithTTL s now data ttl) \<noteq> Inl DuplicateKeyError \<and>
         (write_fault d key data = None \<longrightarrow> commit_fault d = None \<longrightarrow>
            SetWithTTL s now data ttl =
              (Inr key, s\<lparr>db := Some (d\<lparr>items :=
                 AList.update key \<lparr>payload = data, expires_at = Some (now + ttl)\<rparr> (items d)\<rparr>)\<rparr>))"
  using Set_dup [OF assms]
  by (auto simp: SetWithTTL_open [OF assms(1,2)] split: option.splits)

theorem duplicate_handling_witness:
  "Set (open_store [plain [1]]) 7 [1] = (Inl DuplicateKeyError, open_store [plain [1]]) \<and>
   SetWithTTL (open_store [plain [1]]) 7 [1] 60 = (Inr (md5_sum [1]), open_store [expiring [1] 67])"
proof -
  have g: "GenPK [1] = Inr (md5_sum [1])" by (simp add: GenPK_def)
  have l: "live_record (engine_with [plain [1]]) 7 (md5_sum [1]) = Some \<lparr>payload = [1], expires_at = None\<rparr>"
    by (simp add: live_record_def engine_with_def plain_def expired_def)
  show ?thesis
    using duplicate_handling [OF open_store_handle g l, of 60]
    by (simp add: open_store_def engine_with_def plain_def expiring_def)
qed

section \<open>Invariants of the handle and of the table\<close>

text \<open>
  Each function that writes leaves the state as it was or replaces the table of the open
  engine by one with a single entry updated or deleted.  From these shapes: the flag keeps
  agreeing with the engine, the table keeps one entry per key, and it stays content
  addressed.
\<close>

lemma list_all_update:
  "list_all P al \<Longrightarrow> P (k, v) \<Longrightarrow> list_all P (AList.update k v al)"
  by (induction al) auto

lemma list_all_delete: "list_all P al \<Longrightarrow> list_all P (AList.delete k al)"
  by (induction al) auto

lemma Set_state:
  "snd (Set s now data) = s \<or>
   (\<exists>d key. db s = Some d \<and> isOpen s \<and> \<not> closed d \<and> GenPK data = Inr key \<and>
      snd (Set s now data) =
        s\<lparr>db := Some (d\<lparr>items := AList.update key \<lparr>payload = data, expires_at = None\<rparr> (items d)\<rparr>)\<rparr>)"
  by (auto simp: Set_def txn_Set_def txn_SetEntry_def NewEntry_def NewTransaction_def txn_Commit_def
      split: sum.splits option.splits if_splits)

lemma SetWithTTL_state:
  "snd (SetWithTTL s now data ttl) = s \<or>
   (\<exists>d key. db s = Some d \<and> isOpen s \<and> \<not> closed d \<and> GenPK data = Inr key \<and>
      snd (SetWithTTL s now data ttl) =
        s\<lparr>db := Some (d\<lparr>items :=
          AList.update key \<lparr>payload = data, expires_at = Some (now + ttl)\<rparr> (items d)\<rparr>)\<rparr>)"
  by (auto simp: SetWithTTL_def txn_SetEntry_def NewEntry_def WithTTL_def NewTransaction_def
      txn_Commit_def split: sum.splits option.splits if_splits)

lemma Remove_state:
  "snd (Remove s key) = s \<or>
   (\<exists>d. db s = Some d \<and> isOpen s \<and> \<not> closed d \<and>
      snd (Remove s key) = s\<lparr>db := Some (d\<lparr>items := AList.delete key (items d)\<rparr>)\<rparr>)"
  by (auto simp: Remove_def txn_Delete_def NewTransaction_def txn_Commit_def
      split: sum.splits option.splits if_splits)

lemma store_inv_update:
  assumes "store_inv s" "db s = Some d" "GenPK data = Inr key"
  shows "store_inv (s\<lparr>db := Some (d\<lparr>items := AList.update key \<lparr>payload = data, expires_at = x\<rparr> (items d)\<rparr>)\<rparr>)"
  using assms GenPK_Inr [OF assms(3)]
  by (simp add: store_inv_def content_addressed_def list_all_update)

lemma store_inv_delete:
  assumes "store_inv s" "db s = Some d"
  shows "store_inv (s\<lparr>db := Some (d\<lparr>items := AList.delete key (items d)\<rparr>)\<rparr>)"
  using assms by (simp add: store_inv_def content_addressed_def list_all_delete)

lemma handle_inv_update:
  assumes "handle_inv s" "db s = Some d"
  shows "handle_inv (s\<lparr>db := Some (d\<lparr>items := AList.update key e (items d)\<rparr>)\<rparr>)"
  using assms by (simp add: handle_inv_def db_wf_def distinct_update)

lemma handle_inv_delete:
  assumes "handle_inv s" "db s = Some d"
  shows "handle_inv (s\<lparr>db := Some (d\<lparr>items := AList.delete key (items d)\<rparr>)\<rparr>)"
  using assms by (simp add: handle_inv_def db_wf_def distinct_delete)

lemma Set_inv:
  "store_inv s \<Longrightarrow> store_inv (snd (Set s now data))"
  "handle_inv s \<Longrightarrow> handle_inv (snd (Set s now data))"
  using Set_state [of s now data] by (auto intro: store_inv_update handle_inv_update)

lemma SetWithTTL_inv:
  "store_inv s \<Longrightarrow> store_inv (snd (SetWithTTL s now data ttl))"
  "handle_inv s \<Longrightarrow> handle_inv (snd (SetWithTTL s now data ttl))"
  using SetWithTTL_state [of s now data ttl] by (auto intro: store_inv_update handle_inv_update)

lemma Remove_inv:
  "store_inv s \<Longrightarrow> store_inv (snd (Remove s key))"
  "handle_inv s \<Longrightarrow> handle_inv (snd (Remove s key))"
  using Remove_state [of s key] by (auto intro: store_inv_delete handle_inv_delete)

lemma RemoveBatch_loop_preserves:
  assumes step: "\<And>s k. P s \<Longrightarrow> P (snd (Remove s k))"
  shows "P s \<Longrightarrow> P (snd (RemoveBatch_loop s keys errs))"
proof (induction s keys errs rule: RemoveBatch_loop.induct)
  case (1 s errs)
  then show ?case by simp
next
  case (2 s k ks errs)
  from "2.prems" step [OF "2.prems", of k] "2.IH" show ?case
    by (auto split: prod.splits option.splits)
qed

lemma RemoveBatch_loop_inv:
  "store_inv s \<Longrightarrow> store_inv (snd (RemoveBatch_loop s keys errs))"
  "handle_inv s \<Longrightarrow> handle_inv (snd (RemoveBatch_loop s keys errs))"
  by (erule RemoveBatch_loop_preserves [rotated], erule Remove_inv)+

lemma RemoveBatch_inv:
  "store_inv s \<Longrightarrow> store_inv (snd (RemoveBatch s keys))"
  "handle_inv s \<Longrightarrow> handle_inv (snd (RemoveBatch s keys))"
  using RemoveBatch_loop_inv [of s keys "[]"]
  by (auto simp: RemoveBatch_def split: option.splits prod.splits)

lemma Init_inv:
  "store_inv s \<Longrightarrow> written_by_mstore found \<Longrightarrow> store_inv (snd (InitPersistentMode s found))"
  "handle_inv s \<Longrightarrow> written_by_mstore found \<Longrightarrow> handle_inv (snd (InitPersistentMode s found))"
  "store_inv s \<Longrightarrow> store_inv (snd (InitDisklessMode s found))"
  "handle_inv s \<Longrightarrow> handle_inv (snd (InitDisklessMode s found))"
  by (auto simp: InitPersistentMode_def InitDisklessMode_def badger_Open_def store_inv_def
      handle_inv_def written_by_mstore_def db_wf_def content_addressed_def WithInMemory_def
      WithSyncWrites_def DefaultOptions_def
      split: sum.splits option.splits)

lemma Close_inv:
  "store_inv s \<Longrightarrow> store_inv (snd (Close s))"
  "handle_inv s \<Longrightarrow> handle_inv (snd (Close s))"
  by (auto simp: Close_def db_Close_def IsClosed_def store_inv_def handle_inv_def db_wf_def
      split: option.splits)

lemma reachable_inv: "reachable s \<Longrightarrow> store_inv s \<and> handle_inv s"
proof (induction rule: reachable.induct)
  case reach_initial
  then show ?case by (simp add: store_inv_def handle_inv_def initial_store_def)
qed (simp_all add: Init_inv Close_inv Set_inv SetWithTTL_inv Remove_inv RemoveBatch_inv)

lemma reachable_open:
  assumes "reachable s" "isOpen s"
  shows "\<exists>d. open_handle s d \<and> db_wf d"
  using reachable_inv [OF assms(1)] assms(2)
  by (auto simp: handle_inv_def open_handle_def split: option.splits)

lemma one_record_reachable:
  "snd (Set (snd (InitDisklessMode initial_store (Inr (engine_with [])))) 0 [1]) = open_store [plain [1]]"
  by (simp add: InitDisklessMode_def initial_store_def still_open_def badger_Open_def
      engine_with_def WithInMemory_def DefaultOptions_def Set_def GenPK_def Get_def db_View_def
      IsClosed_def NewTransaction_def txn_Get_def length_md5_sum txn_Set_def txn_SetEntry_def
      NewEntry_def txn_Commit_def open_store_def plain_def)

lemma closed_store_reachable:
  "closed_store = snd (Close (snd (InitDisklessMode initial_store (Inr (engine_with [])))))"
  by (simp add: closed_store_def Close_def InitDisklessMode_def initial_store_def still_open_def
      badger_Open_def engine_with_def WithInMemory_def DefaultOptions_def IsClosed_def db_Close_def)

section \<open>The content-address invariant\<close>

text \<open>
  Claim C10.  In every state that the exported functions can reach, the key of every
  stored entry is the \<^verbatim>\<open>GenPK\<close> of the entry's payload, hence 16 bytes long, and no stored
  payload is empty; \<^verbatim>\<open>Set\<close>, \<^verbatim>\<open>SetWithTTL\<close>, \<^verbatim>\<open>Remove\<close> and \<^verbatim>\<open>RemoveBatch\<close> each preserve this,
  from any state and whatever they return.  (A store opened on disk is taken to hold
  what this package wrote there, see \<open>written_by_mstore\<close>.)
\<close>

theorem store_invariant:
  "(reachable s \<longrightarrow> store_inv s) \<and>
   (store_inv s \<longrightarrow>
      store_inv (snd (Set s now data)) \<and> store_inv (snd (SetWithTTL s now data ttl)) \<and>
      store_inv (snd (Remove s key)) \<and> store_inv (snd (RemoveBatch s keys))) \<and>
   (store_inv s \<longrightarrow> db s = Some d \<longrightarrow> (k, e) \<in> set (items d) \<longrightarrow>
      GenPK (payload e) = Inr k \<and> length k = 16 \<and> payload e \<noteq> [])"
proof -
  have "GenPK (payload e) = Inr k \<and> length k = 16 \<and> payload e \<noteq> []"
    if "store_inv s" "db s = Some d" "(k, e) \<in> set (items d)"
  proof -
    from that have "GenPK (payload e) = Inr k"
      by (auto simp: store_inv_def content_addressed_def list_all_iff)
    then show ?thesis using GenPK_Inr by blast
  qed
  then show ?thesis
    by (auto simp: reachable_inv Set_inv SetWithTTL_inv Remove_inv RemoveBatch_inv)
qed

theorem store_invariant_witness:
  "reachable (open_store [plain [1]]) \<and> store_inv (open_store [plain [1]]) \<and>
   store_inv (snd (Set (open_store [plain [1]]) 0 [2])) \<and>
   store_inv (snd (SetWithTTL (open_store [plain [1]]) 0 [2] 9)) \<and>
   store_inv (snd (Remove (open_store [plain [1]]) (md5_sum [1]))) \<and>
   store_inv (snd (RemoveBatch (open_store [plain [1]]) [md5_sum [1]])) \<and>
   GenPK [1] = Inr (md5_sum [1]) \<and> length (md5_sum [1]) = 16"
proof -
  have r: "reachable (open_store [plain [1]])"
    using reach_Set [OF reach_InitDisklessMode [OF reach_initial], of "Inr (engine_with [])" 0 "[1]"]
    by (simp add: one_record_reachable)
  have m: "(md5_sum [1], \<lparr>payload = [1], expires_at = None\<rparr>) \<in> set (items (engine_with [plain [1]]))"
    by (simp add: engine_with_def plain_def)
  have d: "db (open_store [plain [1]]) = Some (engine_with [plain [1]])"
    by (simp add: open_store_def)
  show ?thesis
    using store_invariant [of "open_store [plain [1]]" 0 "[2]" 9 "md5_sum [1]" "[md5_sum [1]]"
        "engine_with [plain [1]]" "md5_sum [1]" "\<lparr>payload = [1], expires_at = None\<rparr>"] r m d
    by simp
qed

section \<open>One tick of the reclamation loop\<close>

text \<open>
  Claim C3, as amended.  On a tick the loop calls \<^verbatim>\<open>RunValueLogGC\<close> with \<open>DISCARD_RATIO\<close>
  and calls it again at once as long as the answer is a nil error.  The first answer that
  is an error of any kind, "nothing to rewrite" like every other, makes it print the
  failure message, call \<^verbatim>\<open>Sync\<close> and wait for the next tick.  While the engine keeps
  reporting progress the tick does not end.
\<close>

theorem gc_pass_policy:
  "gc_pass (replicate n None @ Some err # rest) =
     Some (replicate (Suc n) (RunValueLogGC DISCARD_RATIO) @
             [LogPrint ''data store garbage collection failed'', Sync], rest) \<and>
   gc_pass (replicate n None) = None \<and>
   runGC (Suc m) (replicate n None @ Some err # rest) =
     map_option
       (\<lambda>later. Tick # (replicate (Suc n) (RunValueLogGC DISCARD_RATIO) @
           [LogPrint ''data store garbage collection failed'', Sync]) @ later)
       (runGC m rest)"
proof -
  have "gc_pass (replicate n None @ Some err # rest) =
     Some (replicate (Suc n) (RunValueLogGC DISCARD_RATIO) @
             [LogPrint ''data store garbage collection failed'', Sync], rest)"
    by (induction n) simp_all
  moreover have "gc_pass (replicate n None) = None"
    by (induction n) simp_all
  ultimately show ?thesis by simp
qed

text \<open>
  The claim as first stated fails: after the answer \<open>ErrNoRewrite\<close> the failure message is
  printed, and after any other error \<^verbatim>\<open>Sync\<close> is still called.
\<close>

theorem gc_pass_counterexample:
  "gc_pass [Some ErrNoRewrite] =
     Some ([RunValueLogGC DISCARD_RATIO, LogPrint ''data store garbage collection failed'', Sync], []) \<and>
   LogPrint ''data store garbage collection failed'' \<in> set (fst (the (gc_pass [Some ErrNoRewrite]))) \<and>
   gc_pass [Some (ErrEngine ''value log is corrupt'')] =
     Some ([RunValueLogGC DISCARD_RATIO, LogPrint ''data store garbage collection failed'', Sync], []) \<and>
   Sync \<in> set (fst (the (gc_pass [Some (ErrEngine ''value log is corrupt'')])))"
  by simp

section \<open>Operations on a handle that is not open\<close>

lemma not_open_fails:
  assumes "\<not> isOpen s"
  shows "Set s now data = (Inl NotOpenError, s)"
    and "SetWithTTL s now data ttl = (Inl NotOpenError, s)"
    and "Get s now key = Inl NotOpenError"
    and "GetBatch s now = Inl NotOpenError"
    and "Remove s key = (Some NotOpenError, s)"
  using assms by (simp_all add: Set_def SetWithTTL_def Get_def GetBatch_def Remove_def)

text \<open>
  Claim C1.  \<^verbatim>\<open>Set\<close>, \<^verbatim>\<open>SetWithTTL\<close>, \<^verbatim>\<open>Get\<close>, \<^verbatim>\<open>GetBatch\<close> and \<^verbatim>\<open>Remove\<close> answer \<open>NotOpenError\<close> on
  a handle that is not open (\<open>not_open_fails\<close>).  \<^verbatim>\<open>RemoveBatch\<close> does not: before anything
  was opened it panics on the nil pointer, for any list of keys; after \<^verbatim>\<open>Close\<close> it opens
  a transaction on the closed engine and reports success for the empty list, and for a
  key it files the \<open>NotOpenError\<close> of \<^verbatim>\<open>Remove\<close> in the error map and returns false.
\<close>

theorem RemoveBatch_not_open:
  "RemoveBatch initial_store [] = (Inl NilDereference, initial_store) \<and>
   RemoveBatch initial_store [[1]] = (Inl NilDereference, initial_store) \<and>
   closed_store = snd (Close (snd (InitDisklessMode initial_store (Inr (engine_with []))))) \<and>
   RemoveBatch closed_store [] = (Inr (True, []), closed_store) \<and>
   RemoveBatch closed_store [[1]] = (Inr (False, [(''AQ=='', NotOpenError)]), closed_store) \<and>
   Remove closed_store [1] = (Some NotOpenError, closed_store)"
proof -
  have c: "\<not> isOpen closed_store" "db closed_store = Some ((engine_with [])\<lparr>closed := True\<rparr>)"
    by (simp_all add: closed_store_def)
  show ?thesis
    using closed_store_reachable [symmetric]
    by (simp add: RemoveBatch_def initial_store_def c b64_char_def b64_alphabet_def
        not_open_fails [OF c(1)])
qed

section \<open>The batch read\<close>

text \<open>
  Claim C8.  On an open handle whose engine holds exactly \<open>N\<close> live records, \<^verbatim>\<open>GetBatch\<close>
  succeeds and returns a map with exactly \<open>N\<close> entries, no key twice.  Its keys are the
  base64 texts of the keys of the live records, and under the text of each such key it
  holds the payload stored under that key, and nothing else.
\<close>

theorem GetBatch_contract:
  assumes "open_handle s d" "db_wf d" "length (live_records d now) = N"
  shows "\<exists>me. GetBatch s now = Inr me \<and> length me = N \<and> distinct (map fst me) \<and>
           fst ` set me = EncodeToString ` fst ` set (live_records d now) \<and>
           (\<forall>k e. live_record d now k = Some e \<longrightarrow> map_of me (EncodeToString k) = Some (payload e)) \<and>
           (\<forall>str v. map_of me str = Some v \<longrightarrow>
              (\<exists>k e. live_record d now k = Some e \<and> str = EncodeToString k \<and> v = payload e))"
proof -
  let ?me = "map (\<lambda>ke. (EncodeToString (fst ke), payload (snd ke))) (live_records d now)"
  have dis: "distinct (map fst ?me)"
    using live_records_distinct [OF assms(2), of now] by (simp add: comp_def)
  have a: "map_of ?me (EncodeToString k) = Some (payload e)" if "live_record d now k = Some e" for k e
  proof -
    from that have "(k, e) \<in> set (live_records d now)"
      by (simp add: live_records_iff [OF assms(2)])
    then have "(EncodeToString k, payload e) \<in> set ?me" by force
    with dis show ?thesis by simp
  qed
  have b: "\<exists>k e. live_record d now k = Some e \<and> str = EncodeToString k \<and> v = payload e"
    if "map_of ?me str = Some v" for str v
  proof -
    from that have "(str, v) \<in> set ?me" by (rule map_of_SomeD)
    then obtain k e where "(k, e) \<in> set (live_records d now)" "str = EncodeToString k" "v = payload e"
      by auto
    then show ?thesis by (auto simp: live_records_iff [OF assms(2)])
  qed
  have "fst ` set ?me = EncodeToString ` fst ` set (live_records d now)"
    by (force simp: image_iff)
  with dis a b assms(3) show ?thesis
    by (simp add: GetBatch_open [OF assms(1,2)])
qed

theorem GetBatch_contract_witness:
  "(\<exists>me. GetBatch (open_store [plain [1], expiring [2] 5]) 0 = Inr me \<and> length me = 2 \<and>
      map_of me ''VaVACK0bpYmqIQ0mKcHfQQ=='' = Some [1] \<and>
      map_of me ''nmiMWKVIe46vacnhAFrQvw=='' = Some [2]) \<and>
   (\<exists>me. GetBatch (open_store [plain [1], expiring [2] 5]) 9 = Inr me \<and> length me = 1 \<and>
      map_of me ''VaVACK0bpYmqIQ0mKcHfQQ=='' = Some [1]) \<and>
   GetBatch (open_store [plain [1], expiring [2] 5]) 9 = Inr [(''VaVACK0bpYmqIQ0mKcHfQQ=='', [1])]"
proof -
  let ?d = "engine_with [plain [1], expiring [2] 5]"
  have n: "md5_sum [2] \<noteq> md5_sum [1]" by (simp add: md5_sum_1 md5_sum_2)
  have l0: "length (live_records ?d 0) = 2" and l9: "length (live_records ?d 9) = 1"
    by (simp_all add: live_records_def engine_with_def plain_def expiring_def expired_def)
  have r: "live_record ?d 0 (md5_sum [1]) = Some \<lparr>payload = [1], expires_at = None\<rparr>"
    "live_record ?d 0 (md5_sum [2]) = Some \<lparr>payload = [2], expires_at = Some 5\<rparr>"
    "live_record ?d 9 (md5_sum [1]) = Some \<lparr>payload = [1], expires_at = None\<rparr>"
    using n by (simp_all add: live_record_def engine_with_def plain_def expiring_def expired_def)
  from GetBatch_contract [OF open_store_handle two_records_wf l0] r(1,2)
  have a: "\<exists>me. GetBatch (open_store [plain [1], expiring [2] 5]) 0 = Inr me \<and> length me = 2 \<and>
      map_of me ''VaVACK0bpYmqIQ0mKcHfQQ=='' = Some [1] \<and>
      map_of me ''nmiMWKVIe46vacnhAFrQvw=='' = Some [2]"
    unfolding b64_md5_sum_1 [symmetric] b64_md5_sum_2 [symmetric] by fastforce
  from GetBatch_contract [OF open_store_handle two_records_wf l9] r(3)
  obtain me where m: "GetBatch (open_store [plain [1], expiring [2] 5]) 9 = Inr me" "length me = 1"
      "map_of me ''VaVACK0bpYmqIQ0mKcHfQQ=='' = Some [1]"
      "fst ` set me = EncodeToString ` fst ` set (live_records ?d 9)"
    unfolding b64_md5_sum_1 [symmetric] by fastforce
  from m(2) obtain x where x: "me = [x]" by (cases me) auto
  with m(3) have "x = (''VaVACK0bpYmqIQ0mKcHfQQ=='', [1])"
    by (cases x) (auto split: if_splits)
  with a m x show ?thesis by auto
qed

section \<open>Deletion\<close>

text \<open>
  Claim C9.  On an open handle, when the engine accepts the delete and the commit,
  \<^verbatim>\<open>Remove\<close> returns no error whether or not the key has a record; afterwards the key has no
  record and every other key has what it had; with no record for the key the state is
  unchanged, and a second \<^verbatim>\<open>Remove\<close> of the key answers like the first.  \<^verbatim>\<open>RemoveBatch\<close> calls
  \<^verbatim>\<open>Remove\<close> for each key of non-zero length, whatever happened to the keys before it: the
  error map holds, under the base64 text of a key, exactly the error \<^verbatim>\<open>Remove\<close> gives for
  that key; the keys that did not fail are deleted and no other; keys of length zero make
  no difference; and the boolean is true exactly when the error map is empty.
\<close>

theorem deletion_contract:
  assumes "open_handle s d"
  shows "(write_fault d key [] = None \<longrightarrow> commit_fault d = None \<longrightarrow>
            fst (Remove s key) = None \<and>
            open_handle (snd (Remove s key)) (d\<lparr>items := AList.delete key (items d)\<rparr>) \<and>
            map_of (AList.delete key (items d)) = (map_of (items d))(key := None) \<and>
            (map_of (items d) key = None \<longrightarrow> snd (Remove s key) = s) \<and>
            Remove (snd (Remove s key)) key = Remove s key) \<and>
         (\<exists>errs s' d'. RemoveBatch s keys = (Inr (errs = [], errs), s') \<and> open_handle s' d' \<and>
            (\<forall>str err. map_of errs str = Some err \<longleftrightarrow>
               (\<exists>k\<in>set keys. k \<noteq> [] \<and> str = EncodeToString k \<and> fst (Remove s k) = Some err)) \<and>
            (\<forall>k. map_of (items d') k =
               (if k \<in> set keys \<and> k \<noteq> [] \<and> fst (Remove s k) = None then None
                else map_of (items d) k))) \<and>
         RemoveBatch s [k\<leftarrow>keys. k \<noteq> []] = RemoveBatch s keys"
proof (intro conjI impI)
  assume nf: "write_fault d key [] = None" "commit_fault d = None"
  let ?d1 = "d\<lparr>items := AList.delete key (items d)\<rparr>"
  have r: "Remove s key = (None, s\<lparr>db := Some ?d1\<rparr>)"
    using nf by (simp add: Remove_open [OF assms])
  show "fst (Remove s key) = None" by (simp add: r)
  show o1: "open_handle (snd (Remove s key)) ?d1"
    using open_handle_items [OF assms] by (simp add: r)
  show "map_of (AList.delete key (items d)) = (map_of (items d))(key := None)"
    by (rule delete_conv')
  show "snd (Remove s key) = s" if "map_of (items d) key = None"
    using that assms by (simp add: r delete_absent open_handle_def)
  have "Remove (s\<lparr>db := Some ?d1\<rparr>) key = (None, s\<lparr>db := Some ?d1\<rparr>)"
    using nf by (simp add: Remove_open [OF open_handle_items [OF assms]] delete_idem)
  then show "Remove (snd (Remove s key)) key = Remove s key" by (simp add: r)
next
  let ?errs = "foldl (\<lambda>er k. case fst (Remove s k) of
                      Some e \<Rightarrow> AList.update (EncodeToString k) e er | None \<Rightarrow> er)
                  [] [k\<leftarrow>keys. k \<noteq> []]"
  let ?tab = "foldl (\<lambda>tab k. AList.delete k tab) (items d)
                [k\<leftarrow>keys. k \<noteq> [] \<and> fst (Remove s k) = None]"
  have "RemoveBatch s keys = (Inr (?errs = [], ?errs), s\<lparr>db := Some (d\<lparr>items := ?tab\<rparr>)\<rparr>)"
    by (simp add: RemoveBatch_open [OF assms] Let_def)
  moreover have "open_handle (s\<lparr>db := Some (d\<lparr>items := ?tab\<rparr>)\<rparr>) (d\<lparr>items := ?tab\<rparr>)"
    by (rule open_handle_items [OF assms])
  moreover have "\<forall>str err. map_of ?errs str = Some err \<longleftrightarrow>
      (\<exists>k\<in>set keys. k \<noteq> [] \<and> str = EncodeToString k \<and> fst (Remove s k) = Some err)"
    by (auto simp: errs_map_of)
  moreover have "\<forall>k. map_of (items (d\<lparr>items := ?tab\<rparr>)) k =
      (if k \<in> set keys \<and> k \<noteq> [] \<and> fst (Remove s k) = None then None else map_of (items d) k)"
    by (simp add: foldl_delete_map_of)
  ultimately show "\<exists>errs s' d'. RemoveBatch s keys = (Inr (errs = [], errs), s') \<and> open_handle s' d' \<and>
            (\<forall>str err. map_of errs str = Some err \<longleftrightarrow>
               (\<exists>k\<in>set keys. k \<noteq> [] \<and> str = EncodeToString k \<and> fst (Remove s k) = Some err)) \<and>
            (\<forall>k. map_of (items d') k =
               (if k \<in> set keys \<and> k \<noteq> [] \<and> fst (Remove s k) = None then None
                else map_of (items d) k))"
    by blast
next
  show "RemoveBatch s [k\<leftarrow>keys. k \<noteq> []] = RemoveBatch s keys"
    by (simp add: RemoveBatch_open [OF assms] conj_commute)
qed

theorem deletion_contract_witness:
  "Remove (open_store [plain [1]]) (md5_sum [2]) = (None, open_store [plain [1]]) \<and>
   Remove (open_store [plain [1]]) (md5_sum [1]) = (None, open_store []) \<and>
   Remove (open_store []) (md5_sum [1]) = (None, open_store []) \<and>
   (\<exists>errs s'. RemoveBatch (rejecting_store [7] [plain [1]]) [md5_sum [1], [], [7]] =
        (Inr (False, errs), s') \<and>
      map_of errs ''Bw=='' = Some (EngineError (ErrEngine ''rejected'')) \<and>
      map_of errs ''VaVACK0bpYmqIQ0mKcHfQQ=='' = None) \<and>
   RemoveBatch (rejecting_store [7] [plain [1]]) [md5_sum [1], [], [7]] =
     (Inr (False, [(''Bw=='', EngineError (ErrEngine ''rejected''))]), rejecting_store [7] []) \<and>
   RemoveBatch (open_store [plain [1]]) [md5_sum [1], []] = (Inr (True, []), open_store [])"
proof -
  let ?s = "open_store [plain [1]]" and ?d = "engine_with [plain [1]]"
  let ?r = "rejecting_store [7] [plain [1]]" and ?e = "engine_rejecting [7] [plain [1]]"
  have n: "md5_sum [2] \<noteq> md5_sum [1]" "md5_sum [1] \<noteq> [7]" "md5_sum [1] \<noteq> []"
    by (simp_all add: md5_sum_1 md5_sum_2)
  have f: "write_fault ?d k [] = None" "commit_fault ?d = None"
    "write_fault (engine_with []) k [] = None" "commit_fault (engine_with []) = None" for k
    by (simp_all add: engine_with_def)
  have a: "map_of (items ?d) (md5_sum [2]) = None"
    using n by (simp add: engine_with_def plain_def)
  have v: "fst (Remove ?r [7]) = Some (EngineError (ErrEngine ''rejected''))"
    "fst (Remove ?r (md5_sum [1])) = None"
    using n by (simp_all add: Remove_open_fst [OF rejecting_store_handle] engine_rejecting_def
        engine_with_def)
  have b: "RemoveBatch ?r [md5_sum [1], [], [7]] =
     (Inr (False, [(''Bw=='', EngineError (ErrEngine ''rejected''))]), rejecting_store [7] [])"
  proof -
    have "RemoveBatch ?r [md5_sum [1], [], [7]] =
       (Inr (False, [(''Bw=='', EngineError (ErrEngine ''rejected''))]),
        ?r\<lparr>db := Some (?e\<lparr>items := AList.delete (md5_sum [1]) (items ?e)\<rparr>)\<rparr>)"
      using n v
      by (simp add: RemoveBatch_open [OF rejecting_store_handle] b64_char_def b64_alphabet_def)
    also have "?r\<lparr>db := Some (?e\<lparr>items := AList.delete (md5_sum [1]) (items ?e)\<rparr>)\<rparr> =
        rejecting_store [7] []"
      by (simp add: rejecting_store_def engine_rejecting_def engine_with_def plain_def)
    finally show ?thesis .
  qed
  have "Remove ?s (md5_sum [2]) = (None, ?s)"
    using deletion_contract [OF open_store_handle, of "[plain [1]]" "md5_sum [2]" "[]"] f a
    by (simp add: prod_eq_iff)
  moreover have "Remove ?s (md5_sum [1]) = (None, open_store [])"
  proof -
    have t: "fst (Remove ?s (md5_sum [1])) = None"
      using deletion_contract [OF open_store_handle, of "[plain [1]]" "md5_sum [1]" "[]"] f
      by simp
    then have "snd (Remove ?s (md5_sum [1])) =
        ?s\<lparr>db := Some (?d\<lparr>items := AList.delete (md5_sum [1]) (items ?d)\<rparr>)\<rparr>"
      by (simp add: Remove_open_snd [OF open_store_handle])
    also have "\<dots> = open_store []"
      by (simp add: open_store_def engine_with_def plain_def)
    finally have "snd (Remove ?s (md5_sum [1])) = open_store []" .
    with t show ?thesis by (simp add: prod_eq_iff)
  qed
  moreover have "Remove (open_store []) (md5_sum [1]) = (None, open_store [])"
    using deletion_contract [OF open_store_handle, of "[]" "md5_sum [1]" "[]"] f
    by (simp add: prod_eq_iff engine_with_def)
  moreover have "\<exists>errs s'. RemoveBatch ?r [md5_sum [1], [], [7]] = (Inr (False, errs), s') \<and>
      map_of errs ''Bw=='' = Some (EngineError (ErrEngine ''rejected'')) \<and>
      map_of errs ''VaVACK0bpYmqIQ0mKcHfQQ=='' = None"
  proof -
    from deletion_contract [OF rejecting_store_handle, of "[7]" "[plain [1]]" "[]" "[md5_sum [1], [], [7]]"]
    obtain errs s' where e: "RemoveBatch ?r [md5_sum [1], [], [7]] = (Inr (errs = [], errs), s')"
      and c: "\<And>str err. map_of errs str = Some err \<longleftrightarrow>
               (\<exists>k\<in>set [md5_sum [1], [], [7]]. k \<noteq> [] \<and> str = EncodeToString k \<and>
                  fst (Remove ?r k) = Some err)"
      by blast
    have 1: "map_of errs ''Bw=='' = Some (EngineError (ErrEngine ''rejected''))"
      using v by (simp add: c b64_char_def b64_alphabet_def)
    have 2: "map_of errs ''VaVACK0bpYmqIQ0mKcHfQQ=='' = None"
    proof (cases "map_of errs ''VaVACK0bpYmqIQ0mKcHfQQ==''")
      case (Some err)
      then show ?thesis
        using v by (simp add: c b64_char_def b64_alphabet_def b64_md5_sum_1)
    qed simp
    from 1 have "errs \<noteq> []" by auto
    with e 1 2 show ?thesis by auto
  qed
  moreover have "RemoveBatch ?s [md5_sum [1], []] = (Inr (True, []), open_store [])"
  proof -
    have "RemoveBatch ?s [md5_sum [1], []] =
       (Inr (True, []), ?s\<lparr>db := Some (?d\<lparr>items := AList.delete (md5_sum [1]) (items ?d)\<rparr>)\<rparr>)"
      using f n by (simp add: RemoveBatch_open [OF open_store_handle] Remove_open_fst [OF open_store_handle])
    also have "?s\<lparr>db := Some (?d\<lparr>items := AList.delete (md5_sum [1]) (items ?d)\<rparr>)\<rparr> = open_store []"
      by (simp add: open_store_def engine_with_def plain_def)
    finally show ?thesis .
  qed
  ultimately show ?thesis using b by simp
qed

end
